theory Spec2Isabelle
  imports Main "HOL-Library.Word"
begin

section \<open>Machine types\<close>

text \<open>
  The header is modelled for an LP64 target: \<open>size_t\<close> and \<open>uintptr_t\<close> are unsigned
  64-bit integers whose arithmetic wraps around, and \<open>std::byte\<close> is an 8-bit value.
\<close>

type_synonym size_t = "64 word"
type_synonym uintptr_t = "64 word"
type_synonym byte = "8 word"

section \<open>Data\<close>

text \<open>
  What \<open>allocate<T>\<close> reads of its template argument \<open>T\<close>: \<open>sizeof(T)\<close>,
  \<open>alignof(T)\<close> and \<open>typeid(T).name()\<close>.
\<close>

record ctype =
  sizeof :: size_t
  alignof :: size_t
  typeid_name :: string

text \<open>The private struct \<open>AllocationInfo\<close> of the \<open>DEBUG\<close> build.\<close>

record AllocationInfo =
  address :: uintptr_t
  size' :: size_t
  type_name :: string

text \<open>
  The data members of \<open>Arena<Capacity>\<close>. The template parameter \<open>Capacity\<close>, the macro
  \<open>DEBUG\<close> and the address of \<open>m_buffer\<close> (fixed, since an arena is neither copied nor
  moved) are parameters of the operations below. Without \<open>DEBUG\<close> the member
  \<open>m_allocations\<close> does not exist; the model keeps the field and never touches it.
\<close>

record Arena =
  m_buffer :: "byte list"
  m_used :: size_t
  m_allocations :: "AllocationInfo list"

section \<open>Operations\<close>

text \<open>
  \<open>Arena()\<close>: \<open>m_used(0)\<close>; the buffer is not initialised, so its bytes are whatever
  the storage held (the argument); \<open>reserve(128)\<close> leaves the vector empty.
\<close>

definition Arena_ctor :: "byte list \<Rightarrow> Arena" where
  "Arena_ctor storage = \<lparr>m_buffer = storage, m_used = 0, m_allocations = []\<rparr>"

text \<open>
  \<open>new (memory) T(args...)\<close>: the constructor fills the object's storage, byte by byte
  from the offset of \<open>memory\<close> in the buffer. The bytes it leaves there are given as a
  list; \<open>allocate\<close> cuts the list at \<open>sizeof(T)\<close>.
\<close>

fun placement_new :: "nat \<Rightarrow> byte list \<Rightarrow> byte list \<Rightarrow> byte list" where
  "placement_new off [] buf = buf"
| "placement_new off (b # bs) buf = placement_new (Suc off) bs (buf[off := b])"

text \<open>
  \<open>allocate<T>(args...)\<close>. The result is the returned pointer (\<open>None\<close> for
  \<open>nullptr\<close>) and the arena after the call.
\<close>

definition allocate ::
  "bool \<Rightarrow> size_t \<Rightarrow> uintptr_t \<Rightarrow> ctype \<Rightarrow> byte list \<Rightarrow> Arena \<Rightarrow> uintptr_t option \<times> Arena" where
  "allocate DEBUG Capacity buffer_addr T obj a =
     (let alignment = alignof T;
          cur_addr = buffer_addr + m_used a;
          padding = (alignment - (cur_addr mod alignment)) mod alignment
      in if m_used a + padding + sizeof T > Capacity then (None, a)
         else
           let used1 = m_used a + padding;
               memory = buffer_addr + used1;
               used2 = used1 + sizeof T;
               allocations =
                 (if DEBUG
                  then m_allocations a @
                         [\<lparr>address = memory, size' = sizeof T, type_name = typeid_name T\<rparr>]
                  else m_allocations a)
           in (Some memory,
               \<lparr>m_buffer = placement_new (unat used1) (take (unat (sizeof T)) obj) (m_buffer a),
                m_used = used2,
                m_allocations = allocations\<rparr>))"

text \<open>\<open>reset()\<close>: the one assignment \<open>m_used = 0ULL\<close>.\<close>

definition reset :: "Arena \<Rightarrow> Arena" where
  "reset a = a\<lparr>m_used := 0\<rparr>"

subsection \<open>The memory map\<close>

text \<open>
  \<open>std::to_string\<close> of an unsigned value, which is also what \<open>operator<<\<close> prints for
  one: its decimal digits.
\<close>

function to_string :: "nat \<Rightarrow> string" where
  "to_string n =
     (if n < 10 then [''0123456789'' ! n]
      else to_string (n div 10) @ [''0123456789'' ! (n mod 10)])"
  by pat_completeness auto
termination
  by (relation "measure id") auto

declare to_string.simps [simp del]

text \<open>A field written under \<open>std::left\<close> and \<open>std::setw(w)\<close>: blanks fill it on the right.\<close>

definition setw :: "nat \<Rightarrow> string \<Rightarrow> string" where
  "setw w s = s @ replicate (w - length s) CHR '' ''"

text \<open>
  One table line of \<open>display_map\<close>: fields of width 18, 25 and 10 and a newline.
\<close>

definition row :: "string \<Rightarrow> string \<Rightarrow> string \<Rightarrow> string" where
  "row c1 c2 c3 = setw 18 c1 @ setw 25 c2 @ setw 10 c3 @ [CHR 0x0A]"

definition padding_line :: "uintptr_t \<Rightarrow> size_t \<Rightarrow> string" where
  "padding_line last_offset padding =
     row (''+ '' @ to_string (unat last_offset)) ''(Padding)'' (to_string (unat padding))"

definition allocation_line :: "uintptr_t \<Rightarrow> AllocationInfo \<Rightarrow> string" where
  "allocation_line current_offset alloc =
     row (''+ '' @ to_string (unat current_offset)) (type_name alloc)
         (to_string (unat (size' alloc)))"

definition free_space_line :: "size_t \<Rightarrow> Arena \<Rightarrow> string" where
  "free_space_line Capacity a =
     row (''+ '' @ to_string (unat (m_used a))) ''(Free Space)''
         (to_string (unat (Capacity - m_used a)))"

definition rule_line :: string where
  "rule_line = ''--------------------------------------------------''"

text \<open>
  The loop \<open>for (const AllocationInfo& alloc : m_allocations)\<close>, with the loop variable
  \<open>last_offset\<close> as an argument. The result is the list of lines it prints.
\<close>

fun display_allocations :: "uintptr_t \<Rightarrow> uintptr_t \<Rightarrow> AllocationInfo list \<Rightarrow> string list" where
  "display_allocations buffer_addr last_offset [] = []"
| "display_allocations buffer_addr last_offset (alloc # rest) =
     (let current_addr = address alloc;
          buffer_start_addr = buffer_addr;
          current_offset = current_addr - buffer_start_addr
      in (if current_offset > last_offset
          then [padding_line last_offset (current_offset - last_offset)]
          else [])
         @ [allocation_line current_offset alloc]
         @ display_allocations buffer_addr (current_offset + size' alloc) rest)"

text \<open>\<open>display_map()\<close>: what it writes to \<open>std::cout\<close>, one list element per line group.\<close>

definition display_map :: "bool \<Rightarrow> size_t \<Rightarrow> uintptr_t \<Rightarrow> Arena \<Rightarrow> string list" where
  "display_map DEBUG Capacity buffer_addr a =
     [''--- Arena Memory Map (compile with -DDEBUG) ---'' @ [CHR 0x0A],
      ''Capacity: '' @ to_string (unat Capacity) @ '' bytes | Used: ''
        @ to_string (unat (m_used a)) @ '' bytes'' @ [CHR 0x0A, CHR 0x0A],
      row ''Address (Offset)'' ''Type'' ''Size'',
      rule_line @ [CHR 0x0A]]
     @ (if DEBUG then display_allocations buffer_addr 0 (m_allocations a) else [])
     @ (if m_used a < Capacity then [free_space_line Capacity a] else [])
     @ [rule_line @ [CHR 0x0A, CHR 0x0A]]"

section \<open>Callers\<close>

text \<open>
  A caller is a sequence of calls on one arena. \<open>run\<close> performs them in order and
  returns the pointer of every \<open>allocate\<close> call, in call order, with the final arena.
\<close>

datatype call = Allocate ctype "byte list" | Reset

fun run :: "bool \<Rightarrow> size_t \<Rightarrow> uintptr_t \<Rightarrow> call list \<Rightarrow> Arena \<Rightarrow> uintptr_t option list \<times> Arena" where
  "run DEBUG Capacity buffer_addr [] a = ([], a)"
| "run DEBUG Capacity buffer_addr (Allocate T obj # cs) a =
     (let (r, a') = allocate DEBUG Capacity buffer_addr T obj a;
          (rs, a'') = run DEBUG Capacity buffer_addr cs a'
      in (r # rs, a''))"
| "run DEBUG Capacity buffer_addr (Reset # cs) a =
     run DEBUG Capacity buffer_addr cs (reset a)"

text \<open>
  The byte regions handed out by a run: offset into the buffer and size of every
  successful allocation, in call order.
\<close>

fun regions :: "uintptr_t \<Rightarrow> call list \<Rightarrow> uintptr_t option list \<Rightarrow> (nat \<times> nat) list" where
  "regions buffer_addr (Allocate T obj # cs) (Some p # rs) =
     (unat (p - buffer_addr), unat (sizeof T)) # regions buffer_addr cs rs"
| "regions buffer_addr (Allocate T obj # cs) (None # rs) = regions buffer_addr cs rs"
| "regions buffer_addr (Reset # cs) rs = regions buffer_addr cs rs"
| "regions buffer_addr cs rs = []"

text \<open>The bytes of a region, as offsets into the buffer: \<open>[offset, offset + size)\<close>.\<close>

definition region :: "nat \<times> nat \<Rightarrow> nat set" where
  "region r = {fst r ..< fst r + snd r}"

text \<open>
  Regions laid out one after the other between \<open>lo\<close> and \<open>hi\<close>: each starts at or after
  the end of the one before it.
\<close>

fun consecutive :: "nat \<Rightarrow> (nat \<times> nat) list \<Rightarrow> nat \<Rightarrow> bool" where
  "consecutive lo [] hi = (lo \<le> hi)"
| "consecutive lo (r # rs) hi = (lo \<le> fst r \<and> consecutive (fst r + snd r) rs hi)"

section \<open>The memory map, record by record\<close>

text \<open>
  The memory map described without the loop variable: the offset and the end of a ledger
  record, the lines of one record given the end of the record before it, and the four
  heading lines.
\<close>

definition record_offset :: "uintptr_t \<Rightarrow> AllocationInfo \<Rightarrow> uintptr_t" where
  "record_offset buffer_addr alloc = address alloc - buffer_addr"

definition record_end :: "uintptr_t \<Rightarrow> AllocationInfo \<Rightarrow> uintptr_t" where
  "record_end buffer_addr alloc = record_offset buffer_addr alloc + size' alloc"

definition record_region :: "uintptr_t \<Rightarrow> AllocationInfo \<Rightarrow> nat \<times> nat" where
  "record_region buffer_addr alloc = (unat (record_offset buffer_addr alloc), unat (size' alloc))"

definition entry_lines :: "uintptr_t \<Rightarrow> uintptr_t \<Rightarrow> AllocationInfo \<Rightarrow> string list" where
  "entry_lines buffer_addr prev_end alloc =
     (if prev_end < record_offset buffer_addr alloc
      then [padding_line prev_end (record_offset buffer_addr alloc - prev_end)]
      else [])
     @ [allocation_line (record_offset buffer_addr alloc) alloc]"

definition map_heading :: "size_t \<Rightarrow> Arena \<Rightarrow> string list" where
  "map_heading Capacity a =
     [''--- Arena Memory Map (compile with -DDEBUG) ---'' @ [CHR 0x0A],
      ''Capacity: '' @ to_string (unat Capacity) @ '' bytes | Used: ''
        @ to_string (unat (m_used a)) @ '' bytes'' @ [CHR 0x0A, CHR 0x0A],
      row ''Address (Offset)'' ''Type'' ''Size'',
      rule_line @ [CHR 0x0A]]"

section \<open>What C++ guarantees of a type and of the buffer\<close>

text \<open>
  For every object type, \<open>alignof(T)\<close> is a power of two, \<open>sizeof(T)\<close> is a positive
  multiple of it, and no object is larger than \<open>PTRDIFF_MAX\<close>. The same bound holds for
  the array \<open>m_buffer\<close>, hence for \<open>Capacity\<close>.
\<close>

definition well_formed_type :: "ctype \<Rightarrow> bool" where
  "well_formed_type T \<longleftrightarrow>
     (\<exists>k \<in> {0..<64}. unat (alignof T) = 2 ^ k) \<and> 0 < unat (sizeof T)
     \<and> unat (sizeof T) mod unat (alignof T) = 0 \<and> unat (sizeof T) < 2 ^ 63"

fun well_formed_call :: "call \<Rightarrow> bool" where
  "well_formed_call (Allocate T obj) = well_formed_type T"
| "well_formed_call Reset = True"

section \<open>Padded sizes over the integers\<close>

text \<open>
  The padding formula and the cumulative padded size of a sequence of types placed one
  after the other from offset \<open>u\<close>, over the natural numbers: no machine arithmetic, no
  capacity.
\<close>

definition padding_at :: "nat \<Rightarrow> nat \<Rightarrow> nat" where
  "padding_at addr al = (al - addr mod al) mod al"

fun types_of :: "call list \<Rightarrow> ctype list" where
  "types_of [] = []"
| "types_of (Allocate T obj # cs) = T # types_of cs"
| "types_of (Reset # cs) = types_of cs"

fun cumulative_padded_size :: "nat \<Rightarrow> nat \<Rightarrow> ctype list \<Rightarrow> nat" where
  "cumulative_padded_size base u [] = u"
| "cumulative_padded_size base u (T # Ts) =
     cumulative_padded_size base
       (u + padding_at (base + u) (unat (alignof T)) + unat (sizeof T)) Ts"

section \<open>Sample types\<close>

text \<open>
  Three types of the x86-64 ABI used to run the operations on concrete inputs: \<open>int\<close>,
  \<open>double\<close> and \<open>char[50]\<close>, with the names \<open>typeid\<close> gives them under the Itanium ABI.
\<close>

definition int_t :: ctype where
  "int_t = \<lparr>sizeof = 4, alignof = 4, typeid_name = ''i''\<rparr>"

definition double_t :: ctype where
  "double_t = \<lparr>sizeof = 8, alignof = 8, typeid_name = ''d''\<rparr>"

definition char50_t :: ctype where
  "char50_t = \<lparr>sizeof = 50, alignof = 1, typeid_name = ''A50_c''\<rparr>"

section \<open>Arithmetic of the capacity check\<close>

text \<open>
  For a well-formed type, an arena with \<open>m_used \<le> Capacity\<close> and a capacity below
  \<open>2^63\<close>, none of the additions of \<open>allocate\<close> wraps around.
\<close>

lemma wf_align_pow2:
  assumes "well_formed_type T"
  obtains k where "k < 64" "unat (alignof T) = 2 ^ k"
  using assms unfolding well_formed_type_def by auto

lemma pow2_room:
  fixes s :: nat
  assumes "2 ^ k dvd s" "0 < s" "s < 2 ^ n"
  shows "s + 2 ^ k \<le> 2 ^ n"
proof -
  have "(2::nat) ^ k \<le> s" using assms by (simp add: dvd_imp_le)
  then have "(2::nat) ^ k < 2 ^ n" using assms by linarith
  then have "k < n" by (rule nat_power_less_imp_less [rotated]) simp
  then have "(2::nat) ^ k dvd 2 ^ n" by (simp add: le_imp_power_dvd)
  then have "(2::nat) ^ k dvd 2 ^ n - s" using assms by (simp add: dvd_diff_nat)
  moreover have "0 < (2::nat) ^ n - s" using assms by simp
  ultimately have "(2::nat) ^ k \<le> 2 ^ n - s" by (simp add: dvd_imp_le)
  then show ?thesis using assms by linarith
qed

lemma unat_padding:
  fixes alignment cur_addr :: "64 word"
  assumes "alignment \<noteq> 0"
  shows "unat ((alignment - (cur_addr mod alignment)) mod alignment)
         = (unat alignment - unat cur_addr mod unat alignment) mod unat alignment"
proof -
  have "0 < unat alignment" using assms by (simp add: unat_gt_0)
  then have "unat cur_addr mod unat alignment \<le> unat alignment"
    by (simp add: less_imp_le)
  then have "unat (cur_addr mod alignment) \<le> unat alignment"
    by (simp only: unat_mod)
  then have "cur_addr mod alignment \<le> alignment"
    by (simp only: word_le_nat_alt)
  then have "unat (alignment - cur_addr mod alignment)
             = unat alignment - unat (cur_addr mod alignment)"
    by (rule unat_sub)
  then show ?thesis by (simp only: unat_mod)
qed

lemma wf_size_room:
  assumes "well_formed_type T"
  shows "unat (sizeof T) + unat (alignof T) \<le> 2 ^ 63" "0 < unat (sizeof T)" "0 < unat (alignof T)"
proof -
  obtain k where k: "k < 64" "unat (alignof T) = 2 ^ k" using assms by (rule wf_align_pow2)
  have d: "2 ^ k dvd unat (sizeof T)" using assms k by (simp add: well_formed_type_def mod_eq_0_iff_dvd)
  have p: "0 < unat (sizeof T)" using assms by (simp add: well_formed_type_def)
  have l: "unat (sizeof T) < 2 ^ 63" using assms by (simp add: well_formed_type_def)
  show "unat (sizeof T) + unat (alignof T) \<le> 2 ^ 63" using pow2_room [OF d p l] k by simp
  show "0 < unat (sizeof T)" by (rule p)
  show "0 < unat (alignof T)" using k by simp
qed

lemma unat_add_no_wrap:
  fixes x y :: "64 word"
  assumes "unat x + unat y < 2 ^ 64"
  shows "unat (x + y) = unat x + unat y"
proof -
  have "unat x + unat y < 2 ^ LENGTH(64)" using assms by simp
  then show ?thesis by (rule unat_add_lem [THEN iffD1])
qed

lemma check_no_overflow:
  fixes buffer_addr :: uintptr_t
  assumes wf: "well_formed_type T" and cap: "unat Capacity < 2 ^ 63" and inv: "m_used a \<le> Capacity"
  defines "padding \<equiv> (alignof T - ((buffer_addr + m_used a) mod alignof T)) mod alignof T"
  shows "unat (m_used a + padding) = unat (m_used a) + unat padding"
    and "unat (m_used a + padding + sizeof T) = unat (m_used a) + unat padding + unat (sizeof T)"
    and "unat padding < unat (alignof T)"
proof -
  have al: "0 < unat (alignof T)" using wf by (rule wf_size_room)
  then have "alignof T \<noteq> 0" by (simp add: unat_gt_0)
  then have "unat padding = (unat (alignof T) - unat (buffer_addr + m_used a) mod unat (alignof T)) mod unat (alignof T)"
    unfolding padding_def by (rule unat_padding)
  then show p: "unat padding < unat (alignof T)" using al by simp
  define M :: nat where "M = 2 ^ 63"
  have M2: "(2::nat) ^ 64 = M + M" unfolding M_def by simp
  have "unat (m_used a) \<le> unat Capacity" using inv by (simp only: word_le_nat_alt)
  then have u: "unat (m_used a) < M" using cap unfolding M_def by (rule le_less_trans)
  have r: "unat (sizeof T) + unat (alignof T) \<le> M" unfolding M_def using wf by (rule wf_size_room)
  have "unat (m_used a) + unat padding < M + M" using u p r by linarith
  then have "unat (m_used a) + unat padding < 2 ^ 64" by (simp only: M2)
  then show 1: "unat (m_used a + padding) = unat (m_used a) + unat padding"
    by (rule unat_add_no_wrap)
  have "unat (m_used a + padding) + unat (sizeof T) < M + M" using 1 u p r by linarith
  then have "unat (m_used a + padding) + unat (sizeof T) < 2 ^ 64" by (simp only: M2)
  then have "unat (m_used a + padding + sizeof T) = unat (m_used a + padding) + unat (sizeof T)"
    by (rule unat_add_no_wrap)
  then show "unat (m_used a + padding + sizeof T) = unat (m_used a) + unat padding + unat (sizeof T)"
    using 1 by simp
qed


lemma pad_aligns:
  fixes x al :: nat
  assumes "0 < al"
  shows "(x + (al - x mod al) mod al) mod al = 0"
proof (cases "x mod al = 0")
  case True
  then show ?thesis by simp
next
  case False
  then have lt: "x mod al < al" and pos: "0 < x mod al" using assms by simp_all
  then have "(al - x mod al) mod al = al - x mod al" by simp
  moreover have "x + (al - x mod al) = (x div al) * al + al"
  proof -
    have "x = (x div al) * al + x mod al" by simp
    then show ?thesis using lt by linarith
  qed
  ultimately show ?thesis by simp
qed

lemma word_sum_mod_pow2:
  fixes x y :: "64 word"
  assumes "k < 64" "al = 2 ^ k"
  shows "unat (x + y) mod al = (unat x + unat y) mod al"
proof -
  have "k \<le> LENGTH(64)" using assms by simp
  then have "(2::nat) ^ k dvd 2 ^ LENGTH(64)" by (rule le_imp_power_dvd)
  then have "al dvd 2 ^ LENGTH(64)" unfolding assms(2) .
  then have "((unat x + unat y) mod 2 ^ LENGTH(64)) mod al = (unat x + unat y) mod al"
    by (rule mod_mod_cancel)
  then show ?thesis by (simp only: unat_word_ariths)
qed

lemma allocate_success:
  fixes buffer_addr :: uintptr_t
  assumes wf: "well_formed_type T" and cap: "unat Capacity < 2 ^ 63" and inv: "m_used a \<le> Capacity"
    and ok: "allocate DEBUG Capacity buffer_addr T obj a = (Some p, a')"
  defines "padding \<equiv> (alignof T - ((buffer_addr + m_used a) mod alignof T)) mod alignof T"
  shows "p = buffer_addr + (m_used a + padding)"
    and "m_used a' = m_used a + padding + sizeof T"
    and "unat (m_used a') = unat (m_used a) + unat padding + unat (sizeof T)"
    and "m_used a' \<le> Capacity"
    and "m_buffer a' = placement_new (unat (m_used a) + unat padding) (take (unat (sizeof T)) obj) (m_buffer a)"
proof -
  have nofail: "\<not> m_used a + padding + sizeof T > Capacity"
    using ok unfolding allocate_def padding_def Let_def by (auto split: if_splits)
  show 1: "p = buffer_addr + (m_used a + padding)"
    using ok nofail unfolding allocate_def padding_def Let_def by (auto split: if_splits)
  show 2: "m_used a' = m_used a + padding + sizeof T"
    using ok nofail unfolding allocate_def padding_def Let_def by (auto split: if_splits)
  show "unat (m_used a') = unat (m_used a) + unat padding + unat (sizeof T)"
    unfolding 2 padding_def using wf cap inv by (rule check_no_overflow)
  show "m_used a' \<le> Capacity" using nofail 2 by simp
  have "unat (m_used a + padding) = unat (m_used a) + unat padding"
    unfolding padding_def using wf cap inv by (rule check_no_overflow)
  then show "m_buffer a' = placement_new (unat (m_used a) + unat padding) (take (unat (sizeof T)) obj) (m_buffer a)"
    using ok nofail unfolding allocate_def padding_def Let_def by (auto split: if_splits)
qed

section \<open>What the constructor writes\<close>

text \<open>
  \<open>placement_new\<close> keeps the length of the buffer, leaves every byte outside
  \<open>[off, off + length bs)\<close> as it was, and stores the bytes of the object in that range
  when the range lies in the buffer.
\<close>

lemma placement_new_length: "length (placement_new off bs buf) = length buf"
  by (induction bs arbitrary: off buf) simp_all

lemma placement_new_outside:
  "i \<notin> {off ..< off + length bs} \<Longrightarrow> placement_new off bs buf ! i = buf ! i"
proof (induction bs arbitrary: off buf)
  case Nil
  then show ?case by simp
next
  case (Cons b bs)
  then have "i \<notin> {Suc off ..< Suc off + length bs}" and "i \<noteq> off" by auto
  then have "placement_new (Suc off) bs (buf[off := b]) ! i = buf[off := b] ! i"
    and "buf[off := b] ! i = buf ! i"
    by (simp_all add: Cons.IH)
  then show ?case by simp
qed

lemma placement_new_inside:
  "off + length bs \<le> length buf \<Longrightarrow> j < length bs \<Longrightarrow>
     placement_new off bs buf ! (off + j) = bs ! j"
proof (induction bs arbitrary: off buf j)
  case Nil
  then show ?case by simp
next
  case (Cons b bs)
  show ?case
  proof (cases j)
    case 0
    have "off \<notin> {Suc off ..< Suc off + length bs}" by simp
    then have "placement_new (Suc off) bs (buf[off := b]) ! off = buf[off := b] ! off"
      by (rule placement_new_outside)
    moreover have "off < length buf" using Cons.prems by simp
    ultimately show ?thesis using 0 by simp
  next
    case (Suc j')
    have "Suc off + length bs \<le> length (buf[off := b])" using Cons.prems by simp
    moreover have "j' < length bs" using Cons.prems Suc by simp
    ultimately have "placement_new (Suc off) bs (buf[off := b]) ! (Suc off + j') = bs ! j'"
      by (rule Cons.IH)
    then show ?thesis using Suc by simp
  qed
qed

section \<open>Failure leaves the arena as it was\<close>

text \<open>
  Claim C1. Whenever \<open>allocate<T>\<close> returns \<open>nullptr\<close>, which it does exactly when the
  check \<open>m_used + padding + sizeof(T) > Capacity\<close> holds, the used offset after the call
  is the used offset before it; in fact the whole arena is unchanged.
\<close>

theorem allocate_failure_atomic:
  "fst (allocate DEBUG Capacity buffer_addr T obj a) = None \<Longrightarrow>
     m_used (snd (allocate DEBUG Capacity buffer_addr T obj a)) = m_used a
     \<and> snd (allocate DEBUG Capacity buffer_addr T obj a) = a
     \<and> m_used a + (alignof T - ((buffer_addr + m_used a) mod alignof T)) mod alignof T
           + sizeof T > Capacity"
  by (simp add: allocate_def Let_def split: if_splits)

theorem allocate_failure_atomic_witness:
  "fst (allocate True 64 4096 char50_t []
         \<lparr>m_buffer = replicate 64 0, m_used = 16, m_allocations = []\<rparr>) = None
   \<and> m_used (snd (allocate True 64 4096 char50_t []
         \<lparr>m_buffer = replicate 64 0, m_used = 16, m_allocations = []\<rparr>)) = 16"
  using allocate_failure_atomic [of True 64 4096 char50_t "[]"
      "\<lparr>m_buffer = replicate 64 0, m_used = 16, m_allocations = []\<rparr>"]
  by (simp add: allocate_def char50_t_def)


section \<open>Placement of a successful allocation\<close>

lemma well_formed_double_t: "well_formed_type double_t"
  by (simp add: well_formed_type_def double_t_def) (rule bexI [of _ 3], simp_all)

text \<open>
  Claim C2. A successful \<open>allocate<T>\<close> computes
  \<open>padding = (alignment - (buffer address + used) mod alignment) mod alignment\<close>, places the
  object at offset \<open>used + padding\<close>, so that the returned address is a multiple of
  \<open>alignof(T)\<close>, and leaves \<open>used\<close> at the old \<open>used + padding + sizeof(T)\<close>, the sums
  being sums of natural numbers. Placing the object means that the returned pointer is
  \<open>used + padding\<close> bytes into the buffer and that, the buffer having its \<open>Capacity\<close>
  bytes, the bytes the constructor writes are found in the buffer from that offset on,
  every other byte of the buffer keeping its value. The alignment of the buffer itself
  is not needed: the padding is computed from the address.
\<close>

theorem allocate_success_placement:
  fixes buffer_addr :: uintptr_t
  assumes wf: "well_formed_type T" and cap: "unat Capacity < 2 ^ 63" and inv: "m_used a \<le> Capacity"
    and ok: "allocate DEBUG Capacity buffer_addr T obj a = (Some p, a')"
  shows "let padding = (alignof T - ((buffer_addr + m_used a) mod alignof T)) mod alignof T
         in unat padding = (unat (alignof T) - unat (buffer_addr + m_used a) mod unat (alignof T))
                             mod unat (alignof T)
          \<and> p - buffer_addr = m_used a + padding
          \<and> unat (p - buffer_addr) = unat (m_used a) + unat padding
          \<and> p mod alignof T = 0
          \<and> unat (m_used a') = unat (m_used a) + unat padding + unat (sizeof T)
          \<and> length (m_buffer a') = length (m_buffer a)
          \<and> (unat Capacity \<le> length (m_buffer a) \<longrightarrow>
                (\<forall>j. j < length obj \<and> j < unat (sizeof T) \<longrightarrow>
                   m_buffer a' ! (unat (p - buffer_addr) + j) = obj ! j))
          \<and> (\<forall>i. i \<notin> region (unat (p - buffer_addr), unat (sizeof T)) \<longrightarrow>
                   m_buffer a' ! i = m_buffer a ! i)"
proof -
  define padding where "padding = (alignof T - ((buffer_addr + m_used a) mod alignof T)) mod alignof T"
  obtain k where k: "k < 64" "unat (alignof T) = 2 ^ k" using wf by (rule wf_align_pow2)
  have al: "0 < unat (alignof T)" using wf by (rule wf_size_room)
  then have "alignof T \<noteq> 0" by (simp add: unat_gt_0)
  then have pad: "unat padding = (unat (alignof T) - unat (buffer_addr + m_used a) mod unat (alignof T)) mod unat (alignof T)"
    unfolding padding_def by (rule unat_padding)
  have p: "p = buffer_addr + (m_used a + padding)"
    unfolding padding_def using wf cap inv ok by (rule allocate_success)
  then have off: "p - buffer_addr = m_used a + padding" by simp
  have nowrap: "unat (m_used a + padding) = unat (m_used a) + unat padding"
    unfolding padding_def using wf cap inv by (rule check_no_overflow)
  have offn: "unat (p - buffer_addr) = unat (m_used a) + unat padding"
    using off nowrap by simp
  have "p = (buffer_addr + m_used a) + padding" using p by simp
  then have "unat p mod unat (alignof T) = (unat (buffer_addr + m_used a) + unat padding) mod unat (alignof T)"
    using word_sum_mod_pow2 [OF k(1) k(2)] by simp
  also have "\<dots> = 0" unfolding pad using al by (rule pad_aligns)
  finally have "unat (p mod alignof T) = 0" by (simp only: unat_mod)
  then have aligned: "p mod alignof T = 0" by (simp add: unat_eq_0)
  have used: "unat (m_used a') = unat (m_used a) + unat padding + unat (sizeof T)"
    unfolding padding_def using wf cap inv ok by (rule allocate_success)
  have buf: "m_buffer a' = placement_new (unat (p - buffer_addr))
                (take (unat (sizeof T)) obj) (m_buffer a)"
    unfolding offn padding_def using wf cap inv ok by (rule allocate_success)
  have len: "length (m_buffer a') = length (m_buffer a)"
    unfolding buf by (rule placement_new_length)
  have "m_used a' \<le> Capacity" using wf cap inv ok by (rule allocate_success)
  then have fits: "unat (p - buffer_addr) + unat (sizeof T) \<le> unat Capacity"
    using offn used by (simp add: word_le_nat_alt)
  have written: "m_buffer a' ! (unat (p - buffer_addr) + j) = obj ! j"
    if room: "unat Capacity \<le> length (m_buffer a)"
      and j: "j < length obj \<and> j < unat (sizeof T)" for j
  proof -
    have "unat (p - buffer_addr) + length (take (unat (sizeof T)) obj) \<le> length (m_buffer a)"
      using fits room by simp
    moreover have "j < length (take (unat (sizeof T)) obj)" using j by simp
    ultimately have "m_buffer a' ! (unat (p - buffer_addr) + j) = take (unat (sizeof T)) obj ! j"
      unfolding buf by (rule placement_new_inside)
    then show ?thesis using j by simp
  qed
  have kept: "m_buffer a' ! i = m_buffer a ! i"
    if out: "i \<notin> region (unat (p - buffer_addr), unat (sizeof T))" for i
  proof -
    have "i \<notin> {unat (p - buffer_addr) ..< unat (p - buffer_addr)
              + length (take (unat (sizeof T)) obj)}"
      using out by (auto simp: region_def)
    then show ?thesis unfolding buf by (rule placement_new_outside)
  qed
  show ?thesis
    unfolding Let_def padding_def [symmetric]
    using pad off offn aligned used len written kept by simp
qed

theorem allocate_success_placement_witness:
  "well_formed_type double_t \<and> unat (16 :: size_t) < 2 ^ 63
   \<and> allocate True 16 4096 double_t [1, 2, 3, 4, 5, 6, 7, 8]
         \<lparr>m_buffer = [9, 9, 9, 9, 0, 0, 0, 0, 0, 0, 0, 0, 0, 0, 0, 0], m_used = 4,
          m_allocations = []\<rparr>
       = (Some 4104,
          \<lparr>m_buffer = [9, 9, 9, 9, 0, 0, 0, 0, 1, 2, 3, 4, 5, 6, 7, 8], m_used = 16,
            m_allocations = [\<lparr>address = 4104, size' = 8, type_name = ''d''\<rparr>]\<rparr>)
   \<and> (4104 :: uintptr_t) - 4096 = 4 + 4
   \<and> (4104 :: uintptr_t) mod alignof double_t = 0
   \<and> [9, 9, 9, 9, 0, 0, 0, 0, 1, 2, 3, 4, 5, 6, 7, 8 :: byte]
        ! (unat ((4104 :: uintptr_t) - 4096) + 2) = [1, 2, 3, 4, 5, 6, 7, 8] ! 2
   \<and> [9, 9, 9, 9, 0, 0, 0, 0, 1, 2, 3, 4, 5, 6, 7, 8 :: byte] ! 1
        = [9, 9, 9, 9, 0, 0, 0, 0, 0, 0, 0, 0, 0, 0, 0, 0] ! 1"
proof -
  have ok: "allocate True 16 4096 double_t [1, 2, 3, 4, 5, 6, 7, 8]
         \<lparr>m_buffer = [9, 9, 9, 9, 0, 0, 0, 0, 0, 0, 0, 0, 0, 0, 0, 0], m_used = 4,
          m_allocations = []\<rparr>
       = (Some 4104,
          \<lparr>m_buffer = [9, 9, 9, 9, 0, 0, 0, 0, 1, 2, 3, 4, 5, 6, 7, 8], m_used = 16,
            m_allocations = [\<lparr>address = 4104, size' = 8, type_name = ''d''\<rparr>]\<rparr>)"
    by (simp add: allocate_def double_t_def)
  have cap: "unat (16 :: size_t) < 2 ^ 63" by simp
  have inv: "m_used \<lparr>m_buffer = [9, 9, 9, 9, 0, 0, 0, 0, 0, 0, 0, 0, 0, 0, 0, 0 :: byte],
      m_used = 4, m_allocations = []\<rparr> \<le> (16 :: size_t)"
    by simp
  note th = allocate_success_placement [OF well_formed_double_t cap inv ok,
      unfolded Let_def]
  have al: "(4104 :: uintptr_t) mod alignof double_t = 0" using th by simp
  have room: "unat (16 :: size_t)
      \<le> length (m_buffer \<lparr>m_buffer = [9, 9, 9, 9, 0, 0, 0, 0, 0, 0, 0, 0, 0, 0, 0, 0 :: byte],
            m_used = 4, m_allocations = []\<rparr>)"
    by simp
  have j: "2 < length [1, 2, 3, 4, 5, 6, 7, 8 :: byte] \<and> (2 :: nat) < unat (sizeof double_t)"
    by (simp add: double_t_def)
  have wr: "[9, 9, 9, 9, 0, 0, 0, 0, 1, 2, 3, 4, 5, 6, 7, 8 :: byte]
        ! (unat ((4104 :: uintptr_t) - 4096) + 2) = [1, 2, 3, 4, 5, 6, 7, 8] ! 2"
    using th [THEN conjunct2, THEN conjunct2, THEN conjunct2, THEN conjunct2,
        THEN conjunct2, THEN conjunct2, THEN conjunct1, rule_format, OF room j]
    by simp
  show ?thesis
    using ok cap al wr well_formed_double_t by simp
qed

section \<open>The used offset stays within the capacity\<close>

lemma well_formed_int_t: "well_formed_type int_t"
  by (simp add: well_formed_type_def int_t_def) (rule bexI [of _ 2], simp_all)

lemma well_formed_char50_t: "well_formed_type char50_t"
  by (simp add: well_formed_type_def char50_t_def) (rule bexI [of _ 0], simp_all)

lemma allocate_failure:
  assumes "allocate DEBUG Capacity buffer_addr T obj a = (None, a')"
  shows "a' = a"
  using assms unfolding allocate_def Let_def by (auto split: if_splits)

lemma allocate_keeps_invariant:
  assumes wf: "well_formed_type T" and cap: "unat Capacity < 2 ^ 63" and inv: "m_used a \<le> Capacity"
  shows "m_used (snd (allocate DEBUG Capacity buffer_addr T obj a)) \<le> Capacity"
    and "m_used a \<le> m_used (snd (allocate DEBUG Capacity buffer_addr T obj a))"
proof -
  obtain r a' where ra: "allocate DEBUG Capacity buffer_addr T obj a = (r, a')"
    by (cases "allocate DEBUG Capacity buffer_addr T obj a")
  show "m_used (snd (allocate DEBUG Capacity buffer_addr T obj a)) \<le> Capacity"
  proof (cases r)
    case None
    then show ?thesis using ra inv by (auto dest: allocate_failure)
  next
    case (Some p)
    then show ?thesis using allocate_success(4) [OF wf cap inv] ra by simp
  qed
  show "m_used a \<le> m_used (snd (allocate DEBUG Capacity buffer_addr T obj a))"
  proof (cases r)
    case None
    then show ?thesis using ra by (auto dest: allocate_failure)
  next
    case (Some p)
    then have "unat (m_used a) \<le> unat (m_used a')"
      using allocate_success(3) [OF wf cap inv] ra by simp
    then show ?thesis using ra by (simp add: word_le_nat_alt)
  qed
qed

lemma run_keeps_invariant:
  assumes cap: "unat Capacity < 2 ^ 63"
  shows "\<forall>c \<in> set cs. well_formed_call c \<Longrightarrow> m_used a \<le> Capacity \<Longrightarrow>
         m_used (snd (run DEBUG Capacity buffer_addr cs a)) \<le> Capacity"
proof (induction cs arbitrary: a)
  case Nil
  then show ?case by simp
next
  case (Cons c cs)
  show ?case
  proof (cases c)
    case (Allocate T obj)
    then have wf: "well_formed_type T" using Cons.prems by simp
    have "m_used (snd (allocate DEBUG Capacity buffer_addr T obj a)) \<le> Capacity"
      using wf cap Cons.prems(2) by (rule allocate_keeps_invariant)
    then have "m_used (snd (run DEBUG Capacity buffer_addr cs (snd (allocate DEBUG Capacity buffer_addr T obj a)))) \<le> Capacity"
      using Cons.IH Cons.prems by simp
    then show ?thesis using Allocate by (simp add: split_beta)
  next
    case Reset
    have "m_used (reset a) \<le> Capacity" by (simp add: reset_def)
    then show ?thesis using Reset Cons.IH Cons.prems by simp
  qed
qed

text \<open>
  Claim C3. In every state reached from a fresh arena by a sequence of \<open>allocate\<close> and
  \<open>reset\<close> calls, \<open>0 \<le> m_used \<le> Capacity\<close>; a further \<open>allocate\<close> never decreases
  \<open>m_used\<close>, and \<open>reset\<close> puts it back to 0.
\<close>

theorem used_within_capacity_and_monotone:
  assumes cap: "unat Capacity < 2 ^ 63" and wf: "\<forall>c \<in> set cs. well_formed_call c"
    and reached: "a = snd (run DEBUG Capacity buffer_addr cs (Arena_ctor storage))"
  shows "0 \<le> m_used a \<and> m_used a \<le> Capacity
         \<and> (\<forall>T obj. well_formed_type T \<longrightarrow>
               m_used a \<le> m_used (snd (allocate DEBUG Capacity buffer_addr T obj a)))
         \<and> m_used (reset a) = 0"
proof -
  have "m_used (Arena_ctor storage) \<le> Capacity" by (simp add: Arena_ctor_def)
  then have inv: "m_used a \<le> Capacity"
    unfolding reached using run_keeps_invariant [OF cap wf] by simp
  then show ?thesis
    using allocate_keeps_invariant(2) [OF _ cap inv] by (simp add: reset_def)
qed


theorem used_within_capacity_and_monotone_witness:
  "unat (64 :: size_t) < 2 ^ 63
   \<and> list_all well_formed_call
        [Allocate int_t [], Allocate double_t [], Allocate char50_t [], Reset,
         Allocate double_t []]
   \<and> m_used (snd (run True 64 4096
         [Allocate int_t [], Allocate double_t [], Allocate char50_t [], Reset,
          Allocate double_t []] (Arena_ctor (replicate 64 0)))) = 8
   \<and> m_used (snd (run True 64 4096
         [Allocate int_t [], Allocate double_t [], Allocate char50_t [], Reset,
          Allocate double_t []] (Arena_ctor (replicate 64 0)))) \<le> 64
   \<and> m_used (snd (run True 64 4096
         [Allocate int_t [], Allocate double_t [], Allocate char50_t [], Reset,
          Allocate double_t []] (Arena_ctor (replicate 64 0))))
       \<le> m_used (snd (allocate True 64 4096 int_t []
            (snd (run True 64 4096
              [Allocate int_t [], Allocate double_t [], Allocate char50_t [], Reset,
               Allocate double_t []] (Arena_ctor (replicate 64 0))))))"
proof -
  have cap: "unat (64 :: size_t) < 2 ^ 63" by simp
  have wf: "\<forall>c \<in> set [Allocate int_t [], Allocate double_t [], Allocate char50_t [], Reset,
                    Allocate double_t []]. well_formed_call c"
    by (simp add: well_formed_int_t well_formed_double_t well_formed_char50_t)
  have used: "m_used (snd (run True 64 4096
         [Allocate int_t [], Allocate double_t [], Allocate char50_t [], Reset,
          Allocate double_t []] (Arena_ctor (replicate 64 0)))) = 8"
    by (simp add: Arena_ctor_def allocate_def reset_def int_t_def double_t_def char50_t_def)
  have "m_used (snd (run True 64 4096
         [Allocate int_t [], Allocate double_t [], Allocate char50_t [], Reset,
          Allocate double_t []] (Arena_ctor (replicate 64 0)))) \<le> 64
   \<and> m_used (snd (run True 64 4096
         [Allocate int_t [], Allocate double_t [], Allocate char50_t [], Reset,
          Allocate double_t []] (Arena_ctor (replicate 64 0))))
       \<le> m_used (snd (allocate True 64 4096 int_t []
            (snd (run True 64 4096
              [Allocate int_t [], Allocate double_t [], Allocate char50_t [], Reset,
               Allocate double_t []] (Arena_ctor (replicate 64 0))))))"
    using used_within_capacity_and_monotone [OF cap wf refl, of True 4096 "replicate 64 0"]
      well_formed_int_t
    by blast
  then show ?thesis
    using cap used by (simp add: well_formed_int_t well_formed_double_t well_formed_char50_t)
qed

section \<open>Filling the arena exactly\<close>

lemma unat_padding_at:
  fixes buffer_addr u :: "64 word"
  assumes wf: "well_formed_type T"
  shows "unat ((alignof T - ((buffer_addr + u) mod alignof T)) mod alignof T)
         = padding_at (unat buffer_addr + unat u) (unat (alignof T))"
proof -
  obtain k where k: "k < 64" "unat (alignof T) = 2 ^ k" using wf by (rule wf_align_pow2)
  have "0 < unat (alignof T)" using wf by (rule wf_size_room)
  then have "alignof T \<noteq> 0" by (simp add: unat_gt_0)
  then have "unat ((alignof T - ((buffer_addr + u) mod alignof T)) mod alignof T)
      = (unat (alignof T) - unat (buffer_addr + u) mod unat (alignof T)) mod unat (alignof T)"
    by (rule unat_padding)
  also have "unat (buffer_addr + u) mod unat (alignof T)
      = (unat buffer_addr + unat u) mod unat (alignof T)"
    using k by (rule word_sum_mod_pow2)
  finally show ?thesis by (simp only: padding_at_def)
qed

lemma allocate_fits:
  fixes buffer_addr :: uintptr_t
  assumes wf: "well_formed_type T" and cap: "unat Capacity < 2 ^ 63" and inv: "m_used a \<le> Capacity"
    and fits: "unat (m_used a) + padding_at (unat buffer_addr + unat (m_used a)) (unat (alignof T))
                 + unat (sizeof T) \<le> unat Capacity"
  shows "\<exists>p a'. allocate DEBUG Capacity buffer_addr T obj a = (Some p, a')
           \<and> unat (m_used a') = unat (m_used a)
                 + padding_at (unat buffer_addr + unat (m_used a)) (unat (alignof T))
                 + unat (sizeof T)"
proof -
  define padding where "padding = (alignof T - ((buffer_addr + m_used a) mod alignof T)) mod alignof T"
  have pad: "unat padding = padding_at (unat buffer_addr + unat (m_used a)) (unat (alignof T))"
    unfolding padding_def using wf by (rule unat_padding_at)
  have sum: "unat (m_used a + padding + sizeof T) = unat (m_used a) + unat padding + unat (sizeof T)"
    unfolding padding_def using wf cap inv by (rule check_no_overflow)
  then have "unat (m_used a + padding + sizeof T) \<le> unat Capacity" using fits pad by simp
  then have "\<not> m_used a + padding + sizeof T > Capacity" by (simp add: word_less_nat_alt)
  then obtain p a' where ok: "allocate DEBUG Capacity buffer_addr T obj a = (Some p, a')"
    unfolding allocate_def padding_def Let_def by simp
  have "unat (m_used a') = unat (m_used a) + unat padding + unat (sizeof T)"
    unfolding padding_def using wf cap inv ok by (rule allocate_success)
  then show ?thesis using ok pad by simp
qed

lemma allocate_full:
  fixes buffer_addr :: uintptr_t
  assumes wf: "well_formed_type T" and cap: "unat Capacity < 2 ^ 63" and full: "m_used a = Capacity"
  shows "allocate DEBUG Capacity buffer_addr T obj a = (None, a)"
proof -
  define padding where "padding = (alignof T - ((buffer_addr + m_used a) mod alignof T)) mod alignof T"
  have inv: "m_used a \<le> Capacity" using full by simp
  have "unat (m_used a + padding + sizeof T) = unat (m_used a) + unat padding + unat (sizeof T)"
    unfolding padding_def using wf cap inv by (rule check_no_overflow)
  moreover have "0 < unat (sizeof T)" using wf by (rule wf_size_room)
  ultimately have "unat Capacity < unat (m_used a + padding + sizeof T)" using full by simp
  then have "m_used a + padding + sizeof T > Capacity" by (simp add: word_less_nat_alt)
  then show ?thesis unfolding allocate_def padding_def Let_def by simp
qed

lemma cumulative_padded_size_mono: "u \<le> cumulative_padded_size base u Ts"
proof (induction Ts arbitrary: u)
  case Nil
  then show ?case by simp
next
  case (Cons T Ts)
  have "u \<le> u + padding_at (base + u) (unat (alignof T)) + unat (sizeof T)" by simp
  also have "\<dots> \<le> cumulative_padded_size base (u + padding_at (base + u) (unat (alignof T)) + unat (sizeof T)) Ts"
    by (rule Cons.IH)
  finally show ?case by simp
qed

lemma run_fits:
  assumes cap: "unat Capacity < 2 ^ 63"
  shows "\<forall>c \<in> set cs. well_formed_call c \<Longrightarrow> Reset \<notin> set cs \<Longrightarrow> m_used a \<le> Capacity \<Longrightarrow>
         cumulative_padded_size (unat buffer_addr) (unat (m_used a)) (types_of cs) \<le> unat Capacity \<Longrightarrow>
         None \<notin> set (fst (run DEBUG Capacity buffer_addr cs a))
         \<and> length (fst (run DEBUG Capacity buffer_addr cs a)) = length cs
         \<and> unat (m_used (snd (run DEBUG Capacity buffer_addr cs a)))
             = cumulative_padded_size (unat buffer_addr) (unat (m_used a)) (types_of cs)"
proof (induction cs arbitrary: a)
  case Nil
  then show ?case by simp
next
  case (Cons c cs)
  from Cons.prems(2) obtain T obj where c: "c = Allocate T obj" by (cases c) auto
  have wf: "well_formed_type T" using Cons.prems(1) c by simp
  define u' where "u' = unat (m_used a) + padding_at (unat buffer_addr + unat (m_used a)) (unat (alignof T)) + unat (sizeof T)"
  have total: "cumulative_padded_size (unat buffer_addr) u' (types_of cs) \<le> unat Capacity"
    using Cons.prems(4) c unfolding u'_def by simp
  have "u' \<le> cumulative_padded_size (unat buffer_addr) u' (types_of cs)"
    by (rule cumulative_padded_size_mono)
  then have "u' \<le> unat Capacity" using total by simp
  then obtain p a' where ok: "allocate DEBUG Capacity buffer_addr T obj a = (Some p, a')"
    and used: "unat (m_used a') = u'"
    using allocate_fits [OF wf cap Cons.prems(3), of buffer_addr DEBUG obj] unfolding u'_def by auto
  have inv': "m_used a' \<le> Capacity" using wf cap Cons.prems(3) ok by (rule allocate_success)
  have IH: "None \<notin> set (fst (run DEBUG Capacity buffer_addr cs a'))
         \<and> length (fst (run DEBUG Capacity buffer_addr cs a')) = length cs
         \<and> unat (m_used (snd (run DEBUG Capacity buffer_addr cs a')))
             = cumulative_padded_size (unat buffer_addr) (unat (m_used a')) (types_of cs)"
    using Cons.prems(1,2) inv' total used by (intro Cons.IH) simp_all
  show ?case using IH ok used c unfolding u'_def by (simp add: split_beta)
qed

text \<open>
  Claim C4. From an arena with \<open>m_used \<le> Capacity\<close> (a fresh one has \<open>m_used = 0\<close>), a
  sequence of allocations whose cumulative padded size reaches exactly \<open>Capacity\<close>
  succeeds in full: no call returns \<open>nullptr\<close>, the last one being an exact fit, and
  \<open>m_used\<close> ends at \<open>Capacity\<close>. After that, \<open>allocate\<close> fails for every type, every
  type having a positive size.
\<close>

theorem exhaustion_boundary:
  assumes cap: "unat Capacity < 2 ^ 63"
    and wf: "\<forall>c \<in> set cs. well_formed_call c" and gen: "Reset \<notin> set cs"
    and inv: "m_used a \<le> Capacity"
    and exact: "cumulative_padded_size (unat buffer_addr) (unat (m_used a)) (types_of cs)
                  = unat Capacity"
  shows "None \<notin> set (fst (run DEBUG Capacity buffer_addr cs a))
         \<and> length (fst (run DEBUG Capacity buffer_addr cs a)) = length cs
         \<and> m_used (snd (run DEBUG Capacity buffer_addr cs a)) = Capacity
         \<and> (\<forall>T obj. well_formed_type T \<longrightarrow>
               fst (allocate DEBUG Capacity buffer_addr T obj
                     (snd (run DEBUG Capacity buffer_addr cs a))) = None)"
proof -
  have le: "cumulative_padded_size (unat buffer_addr) (unat (m_used a)) (types_of cs) \<le> unat Capacity"
    using exact by simp
  note r = run_fits [OF cap wf gen inv le, of DEBUG]
  have "unat (m_used (snd (run DEBUG Capacity buffer_addr cs a))) = unat Capacity"
    using r exact by simp
  then have full: "m_used (snd (run DEBUG Capacity buffer_addr cs a)) = Capacity"
    by (simp add: word_unat_eq_iff)
  show ?thesis using r full allocate_full [OF _ cap full] by simp
qed


theorem exhaustion_boundary_witness:
  "unat (16 :: size_t) < 2 ^ 63
   \<and> cumulative_padded_size (unat (4096 :: uintptr_t)) (unat (m_used (Arena_ctor (replicate 16 0))))
        (types_of [Allocate int_t [], Allocate double_t []]) = unat (16 :: size_t)
   \<and> fst (run False 16 4096 [Allocate int_t [], Allocate double_t []] (Arena_ctor (replicate 16 0)))
        = [Some 4096, Some 4104]
   \<and> m_used (snd (run False 16 4096 [Allocate int_t [], Allocate double_t []]
        (Arena_ctor (replicate 16 0)))) = 16
   \<and> fst (allocate False 16 4096 char50_t []
        (snd (run False 16 4096 [Allocate int_t [], Allocate double_t []]
          (Arena_ctor (replicate 16 0))))) = None"
proof -
  have cap: "unat (16 :: size_t) < 2 ^ 63" by simp
  have wf: "\<forall>c \<in> set [Allocate int_t [], Allocate double_t []]. well_formed_call c"
    by (simp add: well_formed_int_t well_formed_double_t)
  have gen: "Reset \<notin> set [Allocate int_t [], Allocate double_t []]" by simp
  have inv: "m_used (Arena_ctor (replicate 16 0)) \<le> (16 :: size_t)"
    by (simp add: Arena_ctor_def)
  have exact: "cumulative_padded_size (unat (4096 :: uintptr_t))
        (unat (m_used (Arena_ctor (replicate 16 0))))
        (types_of [Allocate int_t [], Allocate double_t []]) = unat (16 :: size_t)"
    by (simp add: Arena_ctor_def padding_at_def int_t_def double_t_def)
  have res: "fst (run False 16 4096 [Allocate int_t [], Allocate double_t []]
        (Arena_ctor (replicate 16 0))) = [Some 4096, Some 4104]"
    by (simp add: Arena_ctor_def allocate_def int_t_def double_t_def)
  show ?thesis
    using exhaustion_boundary [OF cap wf gen inv exact, of False] cap exact res
      well_formed_char50_t
    by simp
qed

section \<open>Regions of one generation\<close>

lemma consecutive_bounds: "consecutive lo rs hi \<Longrightarrow> lo \<le> hi"
proof (induction rs arbitrary: lo)
  case Nil
  then show ?case by simp
next
  case (Cons r rs)
  then have "fst r + snd r \<le> hi" and "lo \<le> fst r" by simp_all
  then show ?case by simp
qed

lemma consecutive_nth:
  "consecutive lo rs hi \<Longrightarrow> j < length rs \<Longrightarrow>
     lo \<le> fst (rs ! j) \<and> fst (rs ! j) + snd (rs ! j) \<le> hi
     \<and> (\<forall>i<j. fst (rs ! i) + snd (rs ! i) \<le> fst (rs ! j))"
proof (induction rs arbitrary: lo j)
  case Nil
  then show ?case by simp
next
  case (Cons r rs)
  show ?case
  proof (cases j)
    case 0
    then show ?thesis using Cons.prems consecutive_bounds [of "fst r + snd r" rs hi] by simp
  next
    case (Suc j')
    then have j': "j' < length rs" using Cons.prems by simp
    have tl: "consecutive (fst r + snd r) rs hi" and lo: "lo \<le> fst r" using Cons.prems by simp_all
    note IH = Cons.IH [OF tl j']
    have "\<forall>i<j. fst ((r # rs) ! i) + snd ((r # rs) ! i) \<le> fst (rs ! j')"
    proof (intro allI impI)
      fix i assume "i < j"
      show "fst ((r # rs) ! i) + snd ((r # rs) ! i) \<le> fst (rs ! j')"
      proof (cases i)
        case 0
        then show ?thesis using IH by simp
      next
        case (Suc i')
        then have "i' < j'" using \<open>i < j\<close> \<open>j = Suc j'\<close> by simp
        then show ?thesis using IH Suc by simp
      qed
    qed
    then show ?thesis using IH lo Suc by simp
  qed
qed

lemma allocate_region:
  fixes buffer_addr :: uintptr_t
  assumes wf: "well_formed_type T" and cap: "unat Capacity < 2 ^ 63" and inv: "m_used a \<le> Capacity"
    and ok: "allocate DEBUG Capacity buffer_addr T obj a = (Some p, a')"
  shows "unat (m_used a) \<le> unat (p - buffer_addr)"
    and "unat (p - buffer_addr) + unat (sizeof T) = unat (m_used a')"
proof -
  define padding where "padding = (alignof T - ((buffer_addr + m_used a) mod alignof T)) mod alignof T"
  have "p = buffer_addr + (m_used a + padding)"
    unfolding padding_def using wf cap inv ok by (rule allocate_success)
  then have "p - buffer_addr = m_used a + padding" by simp
  moreover have "unat (m_used a + padding) = unat (m_used a) + unat padding"
    unfolding padding_def using wf cap inv by (rule check_no_overflow)
  ultimately have off: "unat (p - buffer_addr) = unat (m_used a) + unat padding" by simp
  then show "unat (m_used a) \<le> unat (p - buffer_addr)" by simp
  have "unat (m_used a') = unat (m_used a) + unat padding + unat (sizeof T)"
    unfolding padding_def using wf cap inv ok by (rule allocate_success)
  then show "unat (p - buffer_addr) + unat (sizeof T) = unat (m_used a')" using off by simp
qed

lemma run_regions_consecutive:
  assumes cap: "unat Capacity < 2 ^ 63"
  shows "\<forall>c \<in> set cs. well_formed_call c \<Longrightarrow> Reset \<notin> set cs \<Longrightarrow> m_used a \<le> Capacity \<Longrightarrow>
         consecutive (unat (m_used a))
           (regions buffer_addr cs (fst (run DEBUG Capacity buffer_addr cs a)))
           (unat (m_used (snd (run DEBUG Capacity buffer_addr cs a))))"
proof (induction cs arbitrary: a)
  case Nil
  then show ?case by simp
next
  case (Cons c cs)
  from Cons.prems(2) obtain T obj where c: "c = Allocate T obj" by (cases c) auto
  have wf: "well_formed_type T" using Cons.prems(1) c by simp
  obtain r a' where ra: "allocate DEBUG Capacity buffer_addr T obj a = (r, a')"
    by (cases "allocate DEBUG Capacity buffer_addr T obj a")
  show ?case
  proof (cases r)
    case None
    then have same: "a' = a" using ra by (auto dest: allocate_failure)
    have "consecutive (unat (m_used a))
           (regions buffer_addr cs (fst (run DEBUG Capacity buffer_addr cs a)))
           (unat (m_used (snd (run DEBUG Capacity buffer_addr cs a))))"
      using Cons.prems by (intro Cons.IH) simp_all
    then show ?thesis using c ra None same by (simp add: split_beta)
  next
    case (Some p)
    then have ok: "allocate DEBUG Capacity buffer_addr T obj a = (Some p, a')" using ra by simp
    have inv': "m_used a' \<le> Capacity" using wf cap Cons.prems(3) ok by (rule allocate_success)
    have tl: "consecutive (unat (m_used a'))
           (regions buffer_addr cs (fst (run DEBUG Capacity buffer_addr cs a')))
           (unat (m_used (snd (run DEBUG Capacity buffer_addr cs a'))))"
      using Cons.prems inv' by (intro Cons.IH) simp_all
    have "unat (m_used a) \<le> unat (p - buffer_addr)"
      and "unat (p - buffer_addr) + unat (sizeof T) = unat (m_used a')"
      using wf cap Cons.prems(3) ok by (rule allocate_region)+
    then show ?thesis using tl c ok by (simp add: split_beta)
  qed
qed

text \<open>
  Claim C6. For a sequence of \<open>allocate\<close> calls with no \<open>reset\<close> between them, started in
  any arena with \<open>m_used \<le> Capacity\<close>, the region \<open>[offset, offset + size)\<close> of every
  successful allocation lies within \<open>[0, Capacity)\<close> and is disjoint from the region of
  every earlier successful allocation of the sequence.
\<close>

theorem regions_within_capacity_and_disjoint:
  assumes cap: "unat Capacity < 2 ^ 63"
    and wf: "\<forall>c \<in> set cs. well_formed_call c" and gen: "Reset \<notin> set cs"
    and inv: "m_used a \<le> Capacity"
    and rs: "rs = regions buffer_addr cs (fst (run DEBUG Capacity buffer_addr cs a))"
  shows "\<forall>j < length rs. region (rs ! j) \<subseteq> {0 ..< unat Capacity}
           \<and> (\<forall>i < j. region (rs ! i) \<inter> region (rs ! j) = {})"
proof (intro allI impI)
  fix j assume j: "j < length rs"
  have c: "consecutive (unat (m_used a)) rs (unat (m_used (snd (run DEBUG Capacity buffer_addr cs a))))"
    unfolding rs using cap wf gen inv by (rule run_regions_consecutive)
  have "m_used (snd (run DEBUG Capacity buffer_addr cs a)) \<le> Capacity"
    using cap wf inv by (rule run_keeps_invariant)
  then have hi: "unat (m_used (snd (run DEBUG Capacity buffer_addr cs a))) \<le> unat Capacity"
    by (simp only: word_le_nat_alt)
  note n = consecutive_nth [OF c j]
  have "region (rs ! j) \<subseteq> {0 ..< unat Capacity}"
    using n hi by (auto simp: region_def)
  moreover have "\<forall>i < j. region (rs ! i) \<inter> region (rs ! j) = {}"
    using n by (auto simp: region_def)
  ultimately show "region (rs ! j) \<subseteq> {0 ..< unat Capacity}
           \<and> (\<forall>i < j. region (rs ! i) \<inter> region (rs ! j) = {})" by simp
qed


theorem regions_within_capacity_and_disjoint_witness:
  "unat (64 :: size_t) < 2 ^ 63
   \<and> list_all well_formed_call
        [Allocate int_t [], Allocate double_t [], Allocate char50_t [], Allocate int_t []]
   \<and> Reset \<notin> set [Allocate int_t [], Allocate double_t [], Allocate char50_t [],
                    Allocate int_t []]
   \<and> m_used (Arena_ctor (replicate 64 0)) \<le> (64 :: size_t)
   \<and> regions 4096 [Allocate int_t [], Allocate double_t [], Allocate char50_t [],
                    Allocate int_t []]
        (fst (run True 64 4096 [Allocate int_t [], Allocate double_t [], Allocate char50_t [],
                    Allocate int_t []] (Arena_ctor (replicate 64 0))))
       = [(0, 4), (8, 8), (16, 4)]
   \<and> region (0, 4) \<subseteq> {0 ..< unat (64 :: size_t)}
   \<and> region (8, 8) \<subseteq> {0 ..< unat (64 :: size_t)}
   \<and> region (16, 4) \<subseteq> {0 ..< unat (64 :: size_t)}
   \<and> region (0, 4) \<inter> region (8, 8) = {}
   \<and> region (0, 4) \<inter> region (16, 4) = {}
   \<and> region (8, 8) \<inter> region (16, 4) = {}"
proof -
  have cap: "unat (64 :: size_t) < 2 ^ 63" by simp
  have wf: "\<forall>c \<in> set [Allocate int_t [], Allocate double_t [], Allocate char50_t [],
                    Allocate int_t []]. well_formed_call c"
    by (simp add: well_formed_int_t well_formed_double_t well_formed_char50_t)
  have gen: "Reset \<notin> set [Allocate int_t [], Allocate double_t [], Allocate char50_t [],
                    Allocate int_t []]" by simp
  have inv: "m_used (Arena_ctor (replicate 64 0)) \<le> (64 :: size_t)"
    by (simp add: Arena_ctor_def)
  have rs: "[(0, 4), (8, 8), (16, 4)]
      = regions 4096 [Allocate int_t [], Allocate double_t [], Allocate char50_t [],
                    Allocate int_t []]
        (fst (run True 64 4096 [Allocate int_t [], Allocate double_t [], Allocate char50_t [],
                    Allocate int_t []] (Arena_ctor (replicate 64 0))))"
    by (simp add: Arena_ctor_def allocate_def int_t_def double_t_def char50_t_def)
  note all = regions_within_capacity_and_disjoint [OF cap wf gen inv rs]
  have r0: "region (0, 4) \<subseteq> {0 ..< unat (64 :: size_t)}"
    using all [rule_format, of 0] by simp
  have r1: "region (8, 8) \<subseteq> {0 ..< unat (64 :: size_t)}"
    and d01: "region (0, 4) \<inter> region (8, 8) = {}"
    using all [rule_format, of 1] by auto
  have 2: "region (16, 4) \<subseteq> {0 ..< unat (64 :: size_t)}
      \<and> (\<forall>i<2. region ([(0::nat, 4::nat), (8, 8), (16, 4)] ! i) \<inter> region (16, 4) = {})"
    using all [rule_format, of 2] by simp
  then have r2: "region (16, 4) \<subseteq> {0 ..< unat (64 :: size_t)}" by simp
  have d02: "region (0, 4) \<inter> region (16, 4) = {}"
    using 2 [THEN conjunct2, rule_format, of 0] by simp
  have d12: "region (8, 8) \<inter> region (16, 4) = {}"
    using 2 [THEN conjunct2, rule_format, of 1] by simp
  show ?thesis
    using cap gen inv rs [symmetric] r0 r1 r2 d01 d02 d12
    by (simp add: well_formed_int_t well_formed_double_t well_formed_char50_t)
qed

section \<open>A scenario with capacity 64\<close>

lemma aligned8:
  fixes b :: "64 word"
  assumes "b mod 8 = 0"
  shows "b mod 4 = 0" and "(b + 4) mod 8 = 4"
proof -
  have "unat (b mod 8) = 0" using assms by simp
  then have m: "unat b mod 8 = 0" by (simp add: unat_mod)
  have "unat b mod 4 = 0" using m by presburger
  then have "unat (b mod 4) = 0" by (simp add: unat_mod)
  then show "b mod 4 = 0" by (simp add: unat_eq_0)
  have "unat (b + 4) mod 2 ^ 3 = (unat b + unat (4 :: 64 word)) mod 2 ^ 3"
    by (rule word_sum_mod_pow2 [of 3]) simp_all
  also have "\<dots> = 4" using m by simp presburger
  finally have "unat ((b + 4) mod 8) = unat (4 :: 64 word)" by (simp add: unat_mod)
  then show "(b + 4) mod 8 = 4" by (simp only: word_unat_eq_iff)
qed

lemma allocate_int_at_0:
  assumes "buffer_addr mod 8 = 0" "m_used a = 0"
  shows "fst (allocate DEBUG 64 buffer_addr int_t obj a) = Some (buffer_addr + 0)"
    and "m_used (snd (allocate DEBUG 64 buffer_addr int_t obj a)) = 4"
  using aligned8 [OF assms(1)] assms(2)
  by (simp_all add: allocate_def int_t_def Let_def)

lemma allocate_double_at_4:
  assumes "buffer_addr mod 8 = 0" "m_used a = 4"
  shows "fst (allocate DEBUG 64 buffer_addr double_t obj a) = Some (buffer_addr + 8)"
    and "m_used (snd (allocate DEBUG 64 buffer_addr double_t obj a)) = 16"
  using aligned8 [OF assms(1)] assms(2)
  by (simp_all add: allocate_def double_t_def Let_def)

lemma allocate_char50_at_16:
  assumes "m_used a = 16"
  shows "allocate DEBUG 64 buffer_addr char50_t obj a = (None, a)"
  using assms by (simp add: allocate_def char50_t_def Let_def)

text \<open>
  Claim C7. In an arena of capacity 64 whose buffer starts at a multiple of 8 (which
  \<open>alignas(max_align_t)\<close> ensures): a 4-byte 4-aligned value goes to offset 0 and
  \<open>m_used = 4\<close>; an 8-byte 8-aligned value then goes to offset 8, after 4 bytes of
  padding, and \<open>m_used = 16\<close>; a 50-byte 1-aligned value then fails and \<open>m_used\<close> stays
  16; \<open>reset()\<close> gives \<open>m_used = 0\<close>; the 4-byte value then goes to offset 0 again and
  \<open>m_used = 4\<close>.
\<close>

theorem concrete_scenario:
  assumes "buffer_addr mod 8 = 0"
  shows "let a0 = Arena_ctor storage;
             (pA, a1) = allocate DEBUG 64 buffer_addr int_t objA a0;
             (pB, a2) = allocate DEBUG 64 buffer_addr double_t objB a1;
             (pC, a3) = allocate DEBUG 64 buffer_addr char50_t objC a2;
             a4 = reset a3;
             (pA', a5) = allocate DEBUG 64 buffer_addr int_t objA' a4
         in pA = Some (buffer_addr + 0) \<and> m_used a1 = 4
          \<and> pB = Some (buffer_addr + 8) \<and> m_used a2 = 16
          \<and> pC = None \<and> m_used a3 = 16
          \<and> m_used a4 = 0
          \<and> pA' = Some (buffer_addr + 0) \<and> m_used a5 = 4"
proof -
  define a0 where "a0 = Arena_ctor storage"
  define a1 where "a1 = snd (allocate DEBUG 64 buffer_addr int_t objA a0)"
  define a2 where "a2 = snd (allocate DEBUG 64 buffer_addr double_t objB a1)"
  define a3 where "a3 = snd (allocate DEBUG 64 buffer_addr char50_t objC a2)"
  define a4 where "a4 = reset a3"
  define a5 where "a5 = snd (allocate DEBUG 64 buffer_addr int_t objA' a4)"
  have u0: "m_used a0 = 0" by (simp add: a0_def Arena_ctor_def)
  have pA: "fst (allocate DEBUG 64 buffer_addr int_t objA a0) = Some (buffer_addr + 0)"
    and u1: "m_used a1 = 4"
    unfolding a1_def using assms u0 by (rule allocate_int_at_0)+
  have pB: "fst (allocate DEBUG 64 buffer_addr double_t objB a1) = Some (buffer_addr + 8)"
    and u2: "m_used a2 = 16"
    unfolding a2_def using assms u1 by (rule allocate_double_at_4)+
  have c: "allocate DEBUG 64 buffer_addr char50_t objC a2 = (None, a2)"
    using u2 by (rule allocate_char50_at_16)
  then have pC: "fst (allocate DEBUG 64 buffer_addr char50_t objC a2) = None"
    and u3: "m_used a3 = 16"
    using u2 by (simp_all add: a3_def)
  have u4: "m_used a4 = 0" by (simp add: a4_def reset_def)
  have pA': "fst (allocate DEBUG 64 buffer_addr int_t objA' a4) = Some (buffer_addr + 0)"
    and u5: "m_used a5 = 4"
    unfolding a5_def using assms u4 by (rule allocate_int_at_0)+
  show ?thesis
    unfolding Let_def split_beta
    unfolding a0_def [symmetric] a1_def [symmetric] a2_def [symmetric] a3_def [symmetric]
      a4_def [symmetric] a5_def [symmetric]
    using pA u1 pB u2 pC u3 u4 pA' u5 by simp
qed

theorem concrete_scenario_witness:
  "(4096 :: uintptr_t) mod 8 = 0
   \<and> (let a0 = Arena_ctor (replicate 64 0);
             (pA, a1) = allocate True 64 4096 int_t [1, 0, 0, 0] a0;
             (pB, a2) = allocate True 64 4096 double_t [] a1;
             (pC, a3) = allocate True 64 4096 char50_t [] a2;
             a4 = reset a3;
             (pA', a5) = allocate True 64 4096 int_t [2, 0, 0, 0] a4
         in pA = Some 4096 \<and> m_used a1 = 4
          \<and> pB = Some 4104 \<and> m_used a2 = 16
          \<and> pC = None \<and> m_used a3 = 16
          \<and> m_used a4 = 0
          \<and> pA' = Some 4096 \<and> m_used a5 = 4)"
proof -
  have al: "(4096 :: uintptr_t) mod 8 = 0" by simp
  show ?thesis
    using concrete_scenario [OF al, of "replicate 64 0" True "[1, 0, 0, 0]" "[]" "[]" "[2, 0, 0, 0]"]
    by (simp add: Let_def split_beta)
qed

section \<open>The two builds\<close>

lemma allocate_debug_release:
  assumes "m_used a = m_used a'" "m_buffer a = m_buffer a'"
  shows "fst (allocate True Capacity buffer_addr T obj a)
           = fst (allocate False Capacity buffer_addr T obj a')"
    and "m_used (snd (allocate True Capacity buffer_addr T obj a))
           = m_used (snd (allocate False Capacity buffer_addr T obj a'))"
    and "m_buffer (snd (allocate True Capacity buffer_addr T obj a))
           = m_buffer (snd (allocate False Capacity buffer_addr T obj a'))"
    and "m_allocations (snd (allocate False Capacity buffer_addr T obj a')) = m_allocations a'"
  using assms by (simp_all add: allocate_def Let_def)

lemma run_debug_release:
  "m_used a = m_used a' \<Longrightarrow> m_buffer a = m_buffer a' \<Longrightarrow>
     fst (run True Capacity buffer_addr cs a) = fst (run False Capacity buffer_addr cs a')
     \<and> m_used (snd (run True Capacity buffer_addr cs a))
         = m_used (snd (run False Capacity buffer_addr cs a'))
     \<and> m_buffer (snd (run True Capacity buffer_addr cs a))
         = m_buffer (snd (run False Capacity buffer_addr cs a'))
     \<and> m_allocations (snd (run False Capacity buffer_addr cs a')) = m_allocations a'"
proof (induction cs arbitrary: a a')
  case Nil
  then show ?case by simp
next
  case (Cons c cs)
  show ?case
  proof (cases c)
    case (Allocate T obj)
    note step = allocate_debug_release [OF Cons.prems, of Capacity buffer_addr T obj]
    note IH = Cons.IH [OF step(2) step(3)]
    show ?thesis using Allocate step IH by (simp add: split_beta)
  next
    case Reset
    have "m_used (reset a) = m_used (reset a')" "m_buffer (reset a) = m_buffer (reset a')"
      using Cons.prems by (simp_all add: reset_def)
    then have "fst (run True Capacity buffer_addr cs (reset a)) = fst (run False Capacity buffer_addr cs (reset a'))
     \<and> m_used (snd (run True Capacity buffer_addr cs (reset a)))
         = m_used (snd (run False Capacity buffer_addr cs (reset a')))
     \<and> m_buffer (snd (run True Capacity buffer_addr cs (reset a)))
         = m_buffer (snd (run False Capacity buffer_addr cs (reset a')))
     \<and> m_allocations (snd (run False Capacity buffer_addr cs (reset a'))) = m_allocations (reset a')"
      by (rule Cons.IH)
    then show ?thesis using Reset by (simp add: reset_def)
  qed
qed

text \<open>
  Claim C9. The ledger never influences an allocation decision: on every sequence of
  calls from a fresh arena, the build with \<open>DEBUG\<close> and the build without it return the
  same pointers (the same successes and failures, at the same offsets) and leave the
  same \<open>m_used\<close> and the same buffer; only the ledger differs, which the build without
  \<open>DEBUG\<close> never has.
\<close>

theorem ledger_does_not_influence_allocation:
  "fst (run True Capacity buffer_addr cs (Arena_ctor storage))
     = fst (run False Capacity buffer_addr cs (Arena_ctor storage))
   \<and> map (map_option (\<lambda>p. p - buffer_addr)) (fst (run True Capacity buffer_addr cs (Arena_ctor storage)))
     = map (map_option (\<lambda>p. p - buffer_addr)) (fst (run False Capacity buffer_addr cs (Arena_ctor storage)))
   \<and> m_used (snd (run True Capacity buffer_addr cs (Arena_ctor storage)))
     = m_used (snd (run False Capacity buffer_addr cs (Arena_ctor storage)))
   \<and> m_buffer (snd (run True Capacity buffer_addr cs (Arena_ctor storage)))
     = m_buffer (snd (run False Capacity buffer_addr cs (Arena_ctor storage)))
   \<and> m_allocations (snd (run False Capacity buffer_addr cs (Arena_ctor storage))) = []"
  using run_debug_release [of "Arena_ctor storage" "Arena_ctor storage" Capacity buffer_addr cs]
  by (simp add: Arena_ctor_def)

theorem ledger_does_not_influence_allocation_witness:
  "fst (run True 64 4096 [Allocate int_t [], Allocate double_t [], Allocate char50_t [], Reset,
          Allocate double_t []] (Arena_ctor (replicate 64 0)))
     = [Some 4096, Some 4104, None, Some 4096]
   \<and> fst (run False 64 4096 [Allocate int_t [], Allocate double_t [], Allocate char50_t [], Reset,
          Allocate double_t []] (Arena_ctor (replicate 64 0)))
     = [Some 4096, Some 4104, None, Some 4096]
   \<and> m_used (snd (run False 64 4096 [Allocate int_t [], Allocate double_t [], Allocate char50_t [],
          Reset, Allocate double_t []] (Arena_ctor (replicate 64 0)))) = 8"
proof -
  have "fst (run True 64 4096 [Allocate int_t [], Allocate double_t [], Allocate char50_t [], Reset,
          Allocate double_t []] (Arena_ctor (replicate 64 0)))
     = [Some 4096, Some 4104, None, Some 4096]"
    and "m_used (snd (run True 64 4096 [Allocate int_t [], Allocate double_t [], Allocate char50_t [],
          Reset, Allocate double_t []] (Arena_ctor (replicate 64 0)))) = 8"
    by (simp_all add: Arena_ctor_def allocate_def reset_def int_t_def double_t_def char50_t_def)
  then show ?thesis
    using ledger_does_not_influence_allocation [of 64 4096
        "[Allocate int_t [], Allocate double_t [], Allocate char50_t [], Reset, Allocate double_t []]"
        "replicate 64 0"]
    by simp
qed

section \<open>What \<open>reset\<close> leaves in place\<close>

lemma allocate_frame:
  assumes "allocate DEBUG Capacity buffer_addr T obj a = (r, a')"
  shows "length (m_buffer a') = length (m_buffer a)"
    and "r = None \<Longrightarrow> m_buffer a' = m_buffer a"
    and "r = Some p \<Longrightarrow> i \<notin> region (unat (p - buffer_addr), unat (sizeof T)) \<Longrightarrow>
           m_buffer a' ! i = m_buffer a ! i"
proof -
  show "length (m_buffer a') = length (m_buffer a)"
    using assms by (auto simp: allocate_def Let_def placement_new_length split: if_splits)
  show "r = None \<Longrightarrow> m_buffer a' = m_buffer a"
    using assms by (auto simp: allocate_def Let_def split: if_splits)
  show "m_buffer a' ! i = m_buffer a ! i"
    if "r = Some p" and out: "i \<notin> region (unat (p - buffer_addr), unat (sizeof T))"
  proof -
    define used1 where "used1 = m_used a + (alignof T - ((buffer_addr + m_used a) mod alignof T)) mod alignof T"
    have p: "p = buffer_addr + used1"
      and buf: "m_buffer a' = placement_new (unat used1) (take (unat (sizeof T)) obj) (m_buffer a)"
      using assms \<open>r = Some p\<close> unfolding used1_def
      by (auto simp: allocate_def Let_def split: if_splits)
    have "p - buffer_addr = used1" using p by simp
    then have "i \<notin> {unat used1 ..< unat used1 + unat (sizeof T)}"
      using out by (simp add: region_def)
    then have "i \<notin> {unat used1 ..< unat used1 + length (take (unat (sizeof T)) obj)}"
      by auto
    then show ?thesis unfolding buf by (rule placement_new_outside)
  qed
qed

lemma run_frame:
  "(\<forall>r \<in> set (regions buffer_addr cs (fst (run DEBUG Capacity buffer_addr cs a))). i \<notin> region r)
   \<Longrightarrow> m_buffer (snd (run DEBUG Capacity buffer_addr cs a)) ! i = m_buffer a ! i"
proof (induction cs arbitrary: a)
  case Nil
  then show ?case by simp
next
  case (Cons c cs)
  show ?case
  proof (cases c)
    case Reset
    then show ?thesis using Cons.IH [of "reset a"] Cons.prems by (simp add: reset_def)
  next
    case (Allocate T obj)
    obtain r a' where ra: "allocate DEBUG Capacity buffer_addr T obj a = (r, a')"
      by (cases "allocate DEBUG Capacity buffer_addr T obj a")
    show ?thesis
    proof (cases r)
      case None
      then have "m_buffer a' = m_buffer a" using ra by (rule allocate_frame(2) [rotated])
      moreover have "m_buffer (snd (run DEBUG Capacity buffer_addr cs a')) ! i = m_buffer a' ! i"
        using Cons.prems Allocate ra None by (intro Cons.IH) (simp add: split_beta)
      ultimately show ?thesis using Allocate ra by (simp add: split_beta)
    next
      case (Some p)
      have out: "i \<notin> region (unat (p - buffer_addr), unat (sizeof T))"
        using Cons.prems Allocate ra Some by (simp add: split_beta)
      have "m_buffer a' ! i = m_buffer a ! i"
        using ra Some out by (rule allocate_frame(3))
      moreover have "m_buffer (snd (run DEBUG Capacity buffer_addr cs a')) ! i = m_buffer a' ! i"
        using Cons.prems Allocate ra Some by (intro Cons.IH) (simp add: split_beta)
      ultimately show ?thesis using Allocate ra by (simp add: split_beta)
    qed
  qed
qed

text \<open>
  Claim C10. \<open>reset()\<close> leaves the bytes of the buffer as they are, and after it a byte
  keeps its value through any further calls as long as it lies in no region handed out
  by them: what the previous generation wrote stays readable at its old offset until
  the construction of a later allocation overwrites it.
\<close>

theorem reset_leaves_buffer:
  "m_buffer (reset a) = m_buffer a
   \<and> ((\<forall>r \<in> set (regions buffer_addr cs (fst (run DEBUG Capacity buffer_addr cs (reset a)))).
          i \<notin> region r)
        \<longrightarrow> m_buffer (snd (run DEBUG Capacity buffer_addr cs (reset a))) ! i = m_buffer a ! i)"
  using run_frame [of buffer_addr cs DEBUG Capacity "reset a" i]
  by (simp add: reset_def)


theorem reset_leaves_buffer_witness:
  "regions 4096 [Allocate int_t [5, 6, 7, 8]]
     (fst (run True 16 4096 [Allocate int_t [5, 6, 7, 8]]
       (reset (snd (run True 16 4096
         [Allocate int_t [1, 2, 3, 4], Allocate double_t [9, 9, 9, 9, 9, 9, 9, 9]]
         (Arena_ctor [0, 0, 0, 0, 0, 0, 0, 0, 0, 0, 0, 0, 0, 0, 0, 0])))))) = [(0, 4)]
   \<and> 8 \<notin> region (0, 4)
   \<and> m_buffer (reset (snd (run True 16 4096
         [Allocate int_t [1, 2, 3, 4], Allocate double_t [9, 9, 9, 9, 9, 9, 9, 9]]
         (Arena_ctor [0, 0, 0, 0, 0, 0, 0, 0, 0, 0, 0, 0, 0, 0, 0, 0]))))
       = [1, 2, 3, 4, 0, 0, 0, 0, 9, 9, 9, 9, 9, 9, 9, 9]
   \<and> m_buffer (snd (run True 16 4096 [Allocate int_t [5, 6, 7, 8]]
       (reset (snd (run True 16 4096
         [Allocate int_t [1, 2, 3, 4], Allocate double_t [9, 9, 9, 9, 9, 9, 9, 9]]
         (Arena_ctor [0, 0, 0, 0, 0, 0, 0, 0, 0, 0, 0, 0, 0, 0, 0, 0])))))) ! 8 = 9"
proof -
  define a where "a = snd (run True 16 4096
            [Allocate int_t [1, 2, 3, 4], Allocate double_t [9, 9, 9, 9, 9, 9, 9, 9]]
            (Arena_ctor [0, 0, 0, 0, 0, 0, 0, 0, 0, 0, 0, 0, 0, 0, 0, 0]))"
  have a: "a = \<lparr>m_buffer = [1, 2, 3, 4, 0, 0, 0, 0, 9, 9, 9, 9, 9, 9, 9, 9], m_used = 16,
      m_allocations = [\<lparr>address = 4096, size' = 4, type_name = ''i''\<rparr>,
                       \<lparr>address = 4104, size' = 8, type_name = ''d''\<rparr>]\<rparr>"
    unfolding a_def
    by (simp add: Arena_ctor_def allocate_def int_t_def double_t_def)
  have rs: "regions 4096 [Allocate int_t [5, 6, 7, 8]]
        (fst (run True 16 4096 [Allocate int_t [5, 6, 7, 8]] (reset a))) = [(0, 4)]"
    unfolding a by (simp add: allocate_def reset_def int_t_def)
  have out: "8 \<notin> region (0, 4)" by (simp add: region_def)
  have "m_buffer (snd (run True 16 4096 [Allocate int_t [5, 6, 7, 8]] (reset a))) ! 8
      = m_buffer a ! 8"
    using reset_leaves_buffer [of a 4096 "[Allocate int_t [5, 6, 7, 8]]" True 16 8] rs out
    by simp
  then show ?thesis
    unfolding a_def [symmetric] using rs out by (simp add: a reset_def)
qed

section \<open>Rendering the memory map\<close>

text \<open>Evaluation of the printed fields on literals.\<close>

lemma fill_numeral: "replicate (numeral n) c = c # replicate (numeral n - 1) c"
  by (simp add: numeral_eq_Suc)

lemma to_string_numeral:
  "to_string (numeral k) =
     (if (numeral k :: nat) < 10 then [''0123456789'' ! numeral k]
      else to_string (numeral k div 10) @ [''0123456789'' ! (numeral k mod 10)])"
  by (rule to_string.simps)

lemma to_string_0: "to_string 0 = ''0''"
  by (simp add: to_string.simps)

lemma to_string_1: "to_string (Suc 0) = ''1''"
  by (simp add: to_string.simps [of "Suc 0"])

lemmas render = display_map_def free_space_line_def allocation_line_def padding_line_def
  row_def setw_def rule_line_def fill_numeral to_string_numeral to_string_0 to_string_1

lemma display_allocations_by_record:
  "display_allocations buffer_addr last_offset allocs
     = concat (map2 (entry_lines buffer_addr)
                 (last_offset # map (record_end buffer_addr) allocs) allocs)"
proof (induction allocs arbitrary: last_offset)
  case Nil
  then show ?case by simp
next
  case (Cons alloc rest)
  have "display_allocations buffer_addr last_offset (alloc # rest)
      = entry_lines buffer_addr last_offset alloc
        @ display_allocations buffer_addr (record_end buffer_addr alloc) rest"
    by (simp add: entry_lines_def record_end_def record_offset_def Let_def)
  then show ?case by (simp add: Cons.IH)
qed

lemma allocate_ledger:
  assumes "allocate True Capacity buffer_addr T obj a = (r, a')"
  shows "map (record_region buffer_addr) (m_allocations a')
     = map (record_region buffer_addr) (m_allocations a)
       @ (case r of None \<Rightarrow> [] | Some p \<Rightarrow> [(unat (p - buffer_addr), unat (sizeof T))])"
  using assms
  by (auto simp: allocate_def Let_def record_region_def record_offset_def split: if_splits)

lemma run_ledger:
  "map (record_region buffer_addr) (m_allocations (snd (run True Capacity buffer_addr cs a)))
     = map (record_region buffer_addr) (m_allocations a)
       @ regions buffer_addr cs (fst (run True Capacity buffer_addr cs a))"
proof (induction cs arbitrary: a)
  case Nil
  then show ?case by simp
next
  case (Cons c cs)
  show ?case
  proof (cases c)
    case Reset
    then show ?thesis using Cons.IH [of "reset a"] by (simp add: reset_def)
  next
    case (Allocate T obj)
    obtain r a' where ra: "allocate True Capacity buffer_addr T obj a = (r, a')"
      by (cases "allocate True Capacity buffer_addr T obj a")
    note step = allocate_ledger [OF ra]
    note IH = Cons.IH [of a']
    show ?thesis
    proof (cases r)
      case None
      then show ?thesis using Allocate ra step IH by (simp add: split_beta)
    next
      case (Some p)
      then show ?thesis using Allocate ra step IH by (simp add: split_beta)
    qed
  qed
qed

text \<open>
  Claim C8, as the code has it. For every arena state, \<open>display_map\<close> prints the heading,
  then, with \<open>DEBUG\<close>, the ledger records in ledger order: for each record a padding
  line exactly when the end of the record before it (0 before the first) is below its
  offset, then one line with its offset, type name and size; then a free-space line
  for \<open>[m_used, Capacity)\<close> exactly when \<open>m_used < Capacity\<close>, and none otherwise; then
  the closing rule. As long as no \<open>reset\<close> has happened since construction, ledger order
  is address order: the records lie one after the other below \<open>m_used\<close>.
\<close>

theorem memory_map_lines:
  "display_map DEBUG Capacity buffer_addr a
     = map_heading Capacity a
       @ (if DEBUG
          then concat (map2 (entry_lines buffer_addr)
                 (0 # map (record_end buffer_addr) (m_allocations a)) (m_allocations a))
          else [])
       @ (if m_used a < Capacity then [free_space_line Capacity a] else [])
       @ [rule_line @ [CHR 0x0A, CHR 0x0A]]
   \<and> (unat Capacity < 2 ^ 63 \<and> (\<forall>c \<in> set cs. well_formed_call c) \<and> Reset \<notin> set cs
        \<and> a = snd (run True Capacity buffer_addr cs (Arena_ctor storage))
      \<longrightarrow> consecutive 0 (map (record_region buffer_addr) (m_allocations a)) (unat (m_used a)))"
proof (intro conjI impI)
  show "display_map DEBUG Capacity buffer_addr a
     = map_heading Capacity a
       @ (if DEBUG
          then concat (map2 (entry_lines buffer_addr)
                 (0 # map (record_end buffer_addr) (m_allocations a)) (m_allocations a))
          else [])
       @ (if m_used a < Capacity then [free_space_line Capacity a] else [])
       @ [rule_line @ [CHR 0x0A, CHR 0x0A]]"
    by (simp add: display_map_def map_heading_def display_allocations_by_record)
next
  assume h: "unat Capacity < 2 ^ 63 \<and> (\<forall>c \<in> set cs. well_formed_call c) \<and> Reset \<notin> set cs
        \<and> a = snd (run True Capacity buffer_addr cs (Arena_ctor storage))"
  then have cap: "unat Capacity < 2 ^ 63" and wf: "\<forall>c \<in> set cs. well_formed_call c"
    and gen: "Reset \<notin> set cs"
    and a: "a = snd (run True Capacity buffer_addr cs (Arena_ctor storage))"
    by simp_all
  have inv: "m_used (Arena_ctor storage) \<le> Capacity" by (simp add: Arena_ctor_def)
  have "consecutive (unat (m_used (Arena_ctor storage)))
          (regions buffer_addr cs (fst (run True Capacity buffer_addr cs (Arena_ctor storage))))
          (unat (m_used a))"
    unfolding a using cap wf gen inv by (rule run_regions_consecutive)
  moreover have "map (record_region buffer_addr) (m_allocations a)
      = regions buffer_addr cs (fst (run True Capacity buffer_addr cs (Arena_ctor storage)))"
    unfolding a run_ledger by (simp add: Arena_ctor_def)
  ultimately show "consecutive 0 (map (record_region buffer_addr) (m_allocations a)) (unat (m_used a))"
    by (simp add: Arena_ctor_def)
qed


theorem memory_map_lines_witness:
  "unat (64 :: size_t) < 2 ^ 63
   \<and> list_all well_formed_call [Allocate int_t [], Allocate double_t []]
   \<and> Reset \<notin> set [Allocate int_t [], Allocate double_t []]
   \<and> display_map True 64 4096
        (snd (run True 64 4096 [Allocate int_t [], Allocate double_t []]
               (Arena_ctor (replicate 64 0))))
     = [''--- Arena Memory Map (compile with -DDEBUG) ---'' @ [CHR 0x0A],
        ''Capacity: 64 bytes | Used: 16 bytes'' @ [CHR 0x0A, CHR 0x0A],
        ''Address (Offset)  Type                     Size      '' @ [CHR 0x0A],
        ''--------------------------------------------------'' @ [CHR 0x0A],
        ''+ 0               i                        4         '' @ [CHR 0x0A],
        ''+ 4               (Padding)                4         '' @ [CHR 0x0A],
        ''+ 8               d                        8         '' @ [CHR 0x0A],
        ''+ 16              (Free Space)             48        '' @ [CHR 0x0A],
        ''--------------------------------------------------'' @ [CHR 0x0A, CHR 0x0A]]
   \<and> consecutive 0
        (map (record_region 4096)
          (m_allocations (snd (run True 64 4096 [Allocate int_t [], Allocate double_t []]
               (Arena_ctor (replicate 64 0))))))
        (unat (m_used (snd (run True 64 4096 [Allocate int_t [], Allocate double_t []]
               (Arena_ctor (replicate 64 0))))))"
proof -
  define a where "a = snd (run True 64 4096 [Allocate int_t [], Allocate double_t []]
               (Arena_ctor (replicate 64 0)))"
  have a: "a = \<lparr>m_buffer = replicate 64 0, m_used = 16,
      m_allocations = [\<lparr>address = 4096, size' = 4, type_name = ''i''\<rparr>,
                       \<lparr>address = 4104, size' = 8, type_name = ''d''\<rparr>]\<rparr>"
    unfolding a_def by (simp add: Arena_ctor_def allocate_def int_t_def double_t_def)
  have cap: "unat (64 :: size_t) < 2 ^ 63" by simp
  have wf: "\<forall>c \<in> set [Allocate int_t [], Allocate double_t []]. well_formed_call c"
    by (simp add: well_formed_int_t well_formed_double_t)
  have gen: "Reset \<notin> set [Allocate int_t [], Allocate double_t []]" by simp
  have lines: "display_map True 64 4096 a
     = [''--- Arena Memory Map (compile with -DDEBUG) ---'' @ [CHR 0x0A],
        ''Capacity: 64 bytes | Used: 16 bytes'' @ [CHR 0x0A, CHR 0x0A],
        ''Address (Offset)  Type                     Size      '' @ [CHR 0x0A],
        ''--------------------------------------------------'' @ [CHR 0x0A],
        ''+ 0               i                        4         '' @ [CHR 0x0A],
        ''+ 4               (Padding)                4         '' @ [CHR 0x0A],
        ''+ 8               d                        8         '' @ [CHR 0x0A],
        ''+ 16              (Free Space)             48        '' @ [CHR 0x0A],
        ''--------------------------------------------------'' @ [CHR 0x0A, CHR 0x0A]]"
    unfolding a by (simp add: render)
  have "consecutive 0 (map (record_region 4096) (m_allocations a)) (unat (m_used a))"
    using memory_map_lines [of True 64 4096 a "[Allocate int_t [], Allocate double_t []]"
        "replicate 64 0"] cap wf gen a_def
    by blast
  then show ?thesis
    unfolding a_def [symmetric] using cap gen lines
    by (simp add: well_formed_int_t well_formed_double_t)
qed

text \<open>
  Claim C8 as stated fails in a full arena: with \<open>m_used = Capacity = 8\<close> the map ends
  with the line of the allocation and has no free-space line.
\<close>

theorem memory_map_full_arena_counterexample:
  "m_used (snd (allocate True 8 4096 double_t [] (Arena_ctor [0, 0, 0, 0, 0, 0, 0, 0]))) = 8
   \<and> display_map True 8 4096
       (snd (allocate True 8 4096 double_t [] (Arena_ctor [0, 0, 0, 0, 0, 0, 0, 0])))
     = [''--- Arena Memory Map (compile with -DDEBUG) ---'' @ [CHR 0x0A],
        ''Capacity: 8 bytes | Used: 8 bytes'' @ [CHR 0x0A, CHR 0x0A],
        ''Address (Offset)  Type                     Size      '' @ [CHR 0x0A],
        ''--------------------------------------------------'' @ [CHR 0x0A],
        ''+ 0               d                        8         '' @ [CHR 0x0A],
        ''--------------------------------------------------'' @ [CHR 0x0A, CHR 0x0A]]
   \<and> free_space_line 8
        (snd (allocate True 8 4096 double_t [] (Arena_ctor [0, 0, 0, 0, 0, 0, 0, 0])))
       \<notin> set (display_map True 8 4096
        (snd (allocate True 8 4096 double_t [] (Arena_ctor [0, 0, 0, 0, 0, 0, 0, 0]))))"
proof -
  have a: "snd (allocate True 8 4096 double_t [] (Arena_ctor [0, 0, 0, 0, 0, 0, 0, 0]))
      = \<lparr>m_buffer = [0, 0, 0, 0, 0, 0, 0, 0], m_used = 8,
         m_allocations = [\<lparr>address = 4096, size' = 8, type_name = ''d''\<rparr>]\<rparr>"
    by (simp add: allocate_def Arena_ctor_def double_t_def)
  show ?thesis
    unfolding a
    by (simp add: render)
qed


section \<open>The ledger across \<open>reset\<close>\<close>

text \<open>
  Claim C5 at a concrete input: the \<open>DEBUG\<close> build allocates an \<open>int\<close> in an arena of
  capacity 64 and calls \<open>reset()\<close>. \<open>m_used\<close> is 0, but the ledger still holds the record
  of that allocation, and the memory map lists it above 64 bytes of free space at
  offset 0.
\<close>

theorem reset_keeps_ledger_records:
  "m_used (reset (snd (allocate True 64 4096 int_t [] (Arena_ctor (replicate 64 0))))) = 0
   \<and> m_allocations (reset (snd (allocate True 64 4096 int_t [] (Arena_ctor (replicate 64 0)))))
       = [\<lparr>address = 4096, size' = 4, type_name = ''i''\<rparr>]
   \<and> display_map True 64 4096
        (reset (snd (allocate True 64 4096 int_t [] (Arena_ctor (replicate 64 0)))))
     = [''--- Arena Memory Map (compile with -DDEBUG) ---'' @ [CHR 0x0A],
        ''Capacity: 64 bytes | Used: 0 bytes'' @ [CHR 0x0A, CHR 0x0A],
        ''Address (Offset)  Type                     Size      '' @ [CHR 0x0A],
        ''--------------------------------------------------'' @ [CHR 0x0A],
        ''+ 0               i                        4         '' @ [CHR 0x0A],
        ''+ 0               (Free Space)             64        '' @ [CHR 0x0A],
        ''--------------------------------------------------'' @ [CHR 0x0A, CHR 0x0A]]"
proof -
  have a: "reset (snd (allocate True 64 4096 int_t [] (Arena_ctor (replicate 64 0))))
      = \<lparr>m_buffer = replicate 64 0, m_used = 0,
         m_allocations = [\<lparr>address = 4096, size' = 4, type_name = ''i''\<rparr>]\<rparr>"
    by (simp add: reset_def allocate_def Arena_ctor_def int_t_def)
  show ?thesis unfolding a by (simp add: render)
qed

end
